theory Spec2Isabelle
  imports Complex_Main "HOL-Library.Sublist" "HOL-Library.Multiset"
    "HOL-Library.Char_ord" "HOL-Library.List_Lexorder"
begin

section \<open>Python strings\<close>



subsection \<open>Searching and splitting\<close>

text \<open>The lowest index at which \<open>sub\<close> occurs in \<open>s\<close>: \<open>s.find(sub)\<close>, \<open>None\<close> for -1.\<close>

primrec find_first :: "'a list \<Rightarrow> 'a list \<Rightarrow> nat option" where
  "find_first sub [] = (if sub = [] then Some 0 else None)"
| "find_first sub (c # s) =
     (if prefix sub (c # s) then Some 0 else map_option Suc (find_first sub s))"


text \<open>\<open>sub in s\<close>.\<close>

definition contains :: "'a list \<Rightarrow> 'a list \<Rightarrow> bool" where
  "contains s sub = (find_first sub s \<noteq> None)"

text \<open>
  \<open>s.count(sub)\<close>: the occurrences of \<open>sub\<close> found from left to right without
  overlap; the empty string occurs \<open>len(s) + 1\<close> times.
\<close>

function str_count :: "'a list \<Rightarrow> 'a list \<Rightarrow> nat" where
  "str_count s sub =
     (if sub = [] then length s + 1
      else (case find_first sub s of
              None \<Rightarrow> 0
            | Some i \<Rightarrow> 1 + str_count (drop (i + length sub) s) sub))"
  by pat_completeness auto

lemma find_first_nonempty: "find_first sub s = Some i \<Longrightarrow> sub \<noteq> [] \<Longrightarrow> s \<noteq> []"
  by (cases s) auto

termination str_count
proof (relation "measure (\<lambda>(s, sub). length s)")
  show "wf (measure (\<lambda>(s, sub). length s))" by simp
next
  fix s sub :: "'a list" and i
  assume "sub \<noteq> []" and "find_first sub s = Some i"
  then have "s \<noteq> []" by (rule find_first_nonempty [rotated -1])
  with \<open>sub \<noteq> []\<close> show "((drop (i + length sub) s, sub), (s, sub)) \<in> measure (\<lambda>(s, sub). length s)"
    by simp
qed

declare str_count.simps [simp del]

text \<open>
  \<open>s.split(sep, 1)\<close> for a separator that is not empty: \<open>None\<close> when the result is the
  one-element list \<open>[s]\<close>, the two parts otherwise.
\<close>

definition split_once :: "'a list \<Rightarrow> 'a list \<Rightarrow> ('a list \<times> 'a list) option" where
  "split_once sep s =
     (case find_first sep s of
        None \<Rightarrow> None
      | Some i \<Rightarrow> Some (take i s, drop (i + length sep) s))"




text \<open>\<open>sep.join(parts)\<close>.\<close>

fun join :: "'a list \<Rightarrow> 'a list list \<Rightarrow> 'a list" where
  "join sep [] = []"
| "join sep [x] = x"
| "join sep (x # y # ys) = x @ sep @ join sep (y # ys)"

text \<open>\<open>s.strip()\<close>, for the whitespace test \<open>sp\<close> of the string's alphabet.\<close>

definition strip_with :: "('a \<Rightarrow> bool) \<Rightarrow> 'a list \<Rightarrow> 'a list" where
  "strip_with sp s = rev (dropWhile sp (rev (dropWhile sp s)))"

subsection \<open>Character classes and case\<close>

text \<open>
  The code points for which \<open>str.isspace\<close> holds; \<open>str.strip\<close> removes them and
  \<open>\s\<close> matches them.
\<close>

definition py_isspace :: "int \<Rightarrow> bool" where
  "py_isspace n \<longleftrightarrow>
     (9 \<le> n \<and> n \<le> 13) \<or> (28 \<le> n \<and> n \<le> 32) \<or> n = 133 \<or> n = 160 \<or> n = 5760 \<or>
     (8192 \<le> n \<and> n \<le> 8202) \<or> n = 8232 \<or> n = 8233 \<or> n = 8239 \<or> n = 8287 \<or> n = 12288"

definition isspace :: "char \<Rightarrow> bool" where
  "isspace c = py_isspace (of_char c)"


text \<open>\<open>\d\<close>: on U+0000..U+00FF the decimal digits are 0 to 9.\<close>

definition isdigit :: "char \<Rightarrow> bool" where
  "isdigit c \<longleftrightarrow> (48::int) \<le> of_char c \<and> (of_char c :: int) \<le> 57"

definition strip :: "string \<Rightarrow> string" where
  "strip = strip_with isspace"

text \<open>
  \<open>str.lower\<close> on U+0000..U+00FF: A to Z and the capital letters U+00C0..U+00DE
  (without the multiplication sign U+00D7) move up by 32.
\<close>

definition lower_char :: "char \<Rightarrow> char" where
  "lower_char c =
     (let n = (of_char c :: int)
      in if (65 \<le> n \<and> n \<le> 90) \<or> (192 \<le> n \<and> n \<le> 222 \<and> n \<noteq> 215)
         then char_of (n + 32) else c)"

definition lower :: "string \<Rightarrow> string" where
  "lower s = map lower_char s"

text \<open>\<open>str(n)\<close> for an integer.\<close>

fun digits_of :: "nat \<Rightarrow> string" where
  "digits_of n =
     (if n < 10 then [char_of (48 + n)] else digits_of (n div 10) @ [char_of (48 + n mod 10)])"

declare digits_of.simps [simp del]

definition str_of_int :: "int \<Rightarrow> string" where
  "str_of_int i = (if i < 0 then CHR ''-'' # digits_of (nat (- i)) else digits_of (nat i))"

section \<open>The series library (compare.py)\<close>

text \<open>
  The library is the SQLite file that \<open>init_series_library\<close> creates: the tables
  \<open>series_library\<close> and \<open>posts\<close>, both with an \<open>INTEGER PRIMARY KEY AUTOINCREMENT\<close>
  key. A table is the list of its rows in rowid order. For an AUTOINCREMENT key SQLite
  keeps in \<open>sqlite_sequence\<close> the largest rowid the table has ever held; that number is
  part of the state. The foreign key of \<open>posts\<close> is declared, and not enforced (the
  code never switches \<open>PRAGMA foreign_keys\<close> on).
\<close>

record series_row =
  series_id :: nat
  series_title :: string
  topic_col :: string
  num_posts :: int
  audience :: string
  style :: string
  post_length :: string
  date_created :: string
  source_databases :: string
  total_words :: int
  total_cost :: rat
  status :: string
  tags_col :: "string option"
  notes_col :: "string option"

record post_row =
  post_id :: nat
  p_series_id :: nat
  post_number :: int
  post_title :: string
  html_content :: string
  markdown_content :: string
  word_count :: int
  sources_used :: string
  p_date_created :: string

record library =
  series_library :: "series_row list"
  posts :: "post_row list"
  series_seq :: nat
  posts_seq :: nat

text \<open>
  A post of the argument \<open>series_data['posts']\<close>. The keys \<open>post_num\<close> and \<open>html\<close>
  are read with \<open>post[...]\<close>; the other keys are read with \<open>post.get\<close> and may be
  missing. \<open>pd_sources\<close> holds, for the key \<open>sources\<close>, the text \<open>json.dumps\<close> gives for the value.
\<close>

record post_data =
  post_num :: int
  pd_html :: string
  pd_title :: "string option"
  pd_markdown :: "string option"
  pd_word_count :: "int option"
  pd_sources :: "string option"

text \<open>
  The argument \<open>series_data\<close>. The function reads every key below with
  \<open>series_data[...]\<close>, except \<open>cost\<close>, read with \<open>get\<close>. \<open>sd_status\<close> is a \<open>status\<close>
  key the dictionary may carry; the function does not read it.
  \<open>sd_source_databases\<close> holds the text \<open>json.dumps\<close> gives for the value.
\<close>

record series_data =
  sd_title :: string
  sd_topic :: string
  sd_num_posts :: int
  sd_audience :: string
  sd_style :: string
  sd_post_length :: string
  sd_source_databases :: string
  sd_total_words :: int
  sd_cost :: "rat option"
  sd_status :: "string option"
  sd_posts :: "post_data list"

text \<open>The library after \<open>init_series_library\<close> has created it.\<close>

definition empty_library :: library where
  "empty_library = \<lparr>series_library = [], posts = [], series_seq = 0, posts_seq = 0\<rparr>"

text \<open>
  The rowid an AUTOINCREMENT key gives the next row: one more than the largest rowid
  the table has ever held.
\<close>

definition next_rowid :: "nat \<Rightarrow> nat list \<Rightarrow> nat" where
  "next_rowid seq ids = Suc (fold max ids seq)"

text \<open>One \<open>INSERT INTO posts\<close> of the loop of \<open>save_series_to_library\<close>.\<close>

definition insert_post :: "string \<Rightarrow> nat \<Rightarrow> library \<Rightarrow> post_data \<Rightarrow> library" where
  "insert_post now sid lib post =
     (let pid = next_rowid (posts_seq lib) (map post_id (posts lib))
      in lib\<lparr>posts := posts lib @
             [\<lparr>post_id = pid,
               p_series_id = sid,
               post_number = post_num post,
               post_title = (case pd_title post of
                               Some t \<Rightarrow> t
                             | None \<Rightarrow> ''Post '' @ str_of_int (post_num post)),
               html_content = pd_html post,
               markdown_content = (case pd_markdown post of Some m \<Rightarrow> m | None \<Rightarrow> []),
               word_count = (case pd_word_count post of Some w \<Rightarrow> w | None \<Rightarrow> 0),
               sources_used = (case pd_sources post of Some j \<Rightarrow> j | None \<Rightarrow> ''[]''),
               p_date_created = now\<rparr>],
             posts_seq := pid\<rparr>)"

text \<open>
  \<open>save_series_to_library(series_data)\<close>; \<open>now\<close> is \<open>datetime.now().isoformat()\<close>.
  Returns \<open>cursor.lastrowid\<close> of the series row and the library after the commit.
\<close>

definition save_series_to_library :: "string \<Rightarrow> series_data \<Rightarrow> library \<Rightarrow> nat \<times> library" where
  "save_series_to_library now sd lib =
     (let sid = next_rowid (series_seq lib) (map series_id (series_library lib));
          lib1 = lib\<lparr>series_library := series_library lib @
                   [\<lparr>series_id = sid,
                     series_title = sd_title sd,
                     topic_col = sd_topic sd,
                     num_posts = sd_num_posts sd,
                     audience = sd_audience sd,
                     style = sd_style sd,
                     post_length = sd_post_length sd,
                     date_created = now,
                     source_databases = sd_source_databases sd,
                     total_words = sd_total_words sd,
                     total_cost = (case sd_cost sd of Some c \<Rightarrow> c | None \<Rightarrow> 0),
                     status = ''draft'',
                     tags_col = None,
                     notes_col = None\<rparr>],
                   series_seq := sid\<rparr>
      in (sid, fold (\<lambda>post l. insert_post now sid l post) (sd_posts sd) lib1))"

text \<open>
  \<open>get_series_details(series_id)\<close>: the series row and its posts,
  \<open>ORDER BY post_number\<close>; \<open>None\<close> when no series has the id.
\<close>

definition get_series_details :: "nat \<Rightarrow> library \<Rightarrow> (series_row \<times> post_row list) option" where
  "get_series_details sid lib =
     (case find (\<lambda>r. series_id r = sid) (series_library lib) of
        None \<Rightarrow> None
      | Some series \<Rightarrow>
          Some (series, sort_key post_number (filter (\<lambda>p. p_series_id p = sid) (posts lib))))"

text \<open>\<open>delete_series(series_id)\<close>: the two \<open>DELETE\<close> statements.\<close>

definition delete_series :: "nat \<Rightarrow> library \<Rightarrow> library" where
  "delete_series sid lib =
     (let lib1 = lib\<lparr>posts := filter (\<lambda>p. p_series_id p \<noteq> sid) (posts lib)\<rparr>
      in lib1\<lparr>series_library := filter (\<lambda>r. series_id r \<noteq> sid) (series_library lib1)\<rparr>)"

text \<open>The status update of the library page: \<open>UPDATE series_library SET status = ?\<close>.\<close>

definition update_status :: "string \<Rightarrow> nat \<Rightarrow> library \<Rightarrow> library" where
  "update_status new_status sid lib =
     lib\<lparr>series_library :=
           map (\<lambda>r. if series_id r = sid then r\<lparr>status := new_status\<rparr> else r) (series_library lib)\<rparr>"

text \<open>
  \<open>get_all_series()\<close>: the listed columns of every series, \<open>ORDER BY date_created DESC\<close>.
\<close>

definition get_all_series ::
  "library \<Rightarrow> (nat \<times> string \<times> string \<times> int \<times> string \<times> string \<times> string \<times> int) list" where
  "get_all_series lib =
     map (\<lambda>r. (series_id r, series_title r, topic_col r, num_posts r, audience r,
               date_created r, status r, total_words r))
         (rev (sort_key date_created (rev (series_library lib))))"

text \<open>No post row refers to a series that is not in the library.\<close>

definition no_orphans :: "library \<Rightarrow> bool" where
  "no_orphans lib \<longleftrightarrow>
     (\<forall>p \<in> set (posts lib). p_series_id p \<in> series_id ` set (series_library lib))"

subsection \<open>Properties of the library\<close>

lemma fold_max_ge: "seq \<le> fold max ids (seq::nat)"
  by (induction ids arbitrary: seq) (auto intro: order_trans [OF max.cobounded2])

lemma fold_max_mem: "i \<in> set ids \<Longrightarrow> i \<le> fold max ids (seq::nat)"
proof (induction ids arbitrary: seq)
  case Nil
  then show ?case by simp
next
  case (Cons a ids)
  show ?case
  proof (cases "i = a")
    case True
    have "max a seq \<le> fold max ids (max a seq)" by (rule fold_max_ge)
    with True show ?thesis by simp
  next
    case False
    with Cons show ?thesis by simp
  qed
qed

lemma next_rowid_fresh: "i \<in> set ids \<Longrightarrow> i < next_rowid seq ids"
  by (simp add: next_rowid_def fold_max_mem less_Suc_eq_le)

lemma insert_post_series [simp]: "series_library (insert_post now sid l d) = series_library l"
  by (simp add: insert_post_def Let_def)

lemma fold_insert_post_series [simp]:
  "series_library (fold (\<lambda>post l. insert_post now sid l post) ds l) = series_library l"
  by (induction ds arbitrary: l) simp_all

lemma fold_insert_post_posts:
  "\<exists>new. posts (fold (\<lambda>post l. insert_post now sid l post) ds l) = posts l @ new \<and>
         (\<forall>p \<in> set new. p_series_id p = sid) \<and>
         map (\<lambda>p. (post_number p, html_content p)) new = map (\<lambda>d. (post_num d, pd_html d)) ds"
proof (induction ds arbitrary: l)
  case Nil
  then show ?case by simp
next
  case (Cons d ds)
  obtain new where new: "posts (fold (\<lambda>post l. insert_post now sid l post) ds (insert_post now sid l d))
        = posts (insert_post now sid l d) @ new"
      "\<forall>p \<in> set new. p_series_id p = sid"
      "map (\<lambda>p. (post_number p, html_content p)) new = map (\<lambda>d. (post_num d, pd_html d)) ds"
    using Cons [of "insert_post now sid l d"] by blast
  obtain row where row: "posts (insert_post now sid l d) = posts l @ [row]"
      "p_series_id row = sid" "post_number row = post_num d" "html_content row = pd_html d"
    by (simp add: insert_post_def Let_def)
  show ?case
  proof (intro exI conjI)
    show "posts (fold (\<lambda>post l. insert_post now sid l post) (d # ds) l) = posts l @ (row # new)"
      using new(1) row(1) by simp
    show "\<forall>p \<in> set (row # new). p_series_id p = sid" using new(2) row(2) by simp
    show "map (\<lambda>p. (post_number p, html_content p)) (row # new) = map (\<lambda>d. (post_num d, pd_html d)) (d # ds)"
      using new(3) row(3,4) by simp
  qed
qed

lemma find_append_fresh:
  "\<forall>r \<in> set xs. \<not> P r \<Longrightarrow> P x \<Longrightarrow> find P (xs @ [x]) = Some x"
  by (induction xs) auto

lemma save_series_row:
  assumes "save_series_to_library now sd lib = (sid, lib')"
  shows "\<exists>r. series_library lib' = series_library lib @ [r] \<and> series_id r = sid \<and>
             status r = ''draft'' \<and> series_title r = sd_title sd \<and> topic_col r = sd_topic sd \<and>
             num_posts r = sd_num_posts sd \<and> audience r = sd_audience sd \<and>
             date_created r = now \<and> total_words r = sd_total_words sd"
    and "sid = next_rowid (series_seq lib) (map series_id (series_library lib))"
  using assms by (auto simp: save_series_to_library_def Let_def)

lemma save_series_posts:
  assumes "save_series_to_library now sd lib = (sid, lib')"
  shows "\<exists>new. posts lib' = posts lib @ new \<and> (\<forall>p \<in> set new. p_series_id p = sid) \<and>
           map (\<lambda>p. (post_number p, html_content p)) new = map (\<lambda>d. (post_num d, pd_html d)) (sd_posts sd)"
proof -
  define lib1 where "lib1 = lib\<lparr>series_library := series_library lib @
                   [\<lparr>series_id = sid,
                     series_title = sd_title sd,
                     topic_col = sd_topic sd,
                     num_posts = sd_num_posts sd,
                     audience = sd_audience sd,
                     style = sd_style sd,
                     post_length = sd_post_length sd,
                     date_created = now,
                     source_databases = sd_source_databases sd,
                     total_words = sd_total_words sd,
                     total_cost = (case sd_cost sd of Some c \<Rightarrow> c | None \<Rightarrow> 0),
                     status = ''draft'',
                     tags_col = None,
                     notes_col = None\<rparr>],
                   series_seq := sid\<rparr>"
  have "lib' = fold (\<lambda>post l. insert_post now sid l post) (sd_posts sd) lib1"
    using assms by (auto simp: save_series_to_library_def Let_def lib1_def)
  moreover have "posts lib1 = posts lib" by (simp add: lib1_def)
  ultimately show ?thesis using fold_insert_post_posts [of now sid "sd_posts sd" lib1] by simp
qed

lemma save_series_fresh:
  assumes "save_series_to_library now sd lib = (sid, lib')"
  shows "\<forall>r \<in> set (series_library lib). series_id r \<noteq> sid"
proof
  fix r assume "r \<in> set (series_library lib)"
  then have "series_id r \<in> set (map series_id (series_library lib))" by simp
  then have "series_id r < next_rowid (series_seq lib) (map series_id (series_library lib))"
    by (rule next_rowid_fresh)
  then show "series_id r \<noteq> sid" using save_series_row(2) [OF assms] by simp
qed

text \<open>
  Claim C7. In a library without orphaned posts (every state the library operations
  produce is one), a series saved with \<open>save_series_to_library\<close> and fetched with
  \<open>get_series_details\<close> under the returned id comes back with as many posts as were
  saved, in ascending order of post number, each post number with the HTML that was
  saved under it.
\<close>

theorem C7_roundtrip:
  assumes inv: "no_orphans lib"
    and save: "save_series_to_library now sd lib = (sid, lib')"
  shows "\<exists>series ps. get_series_details sid lib' = Some (series, ps) \<and>
           length ps = length (sd_posts sd) \<and>
           sorted (map post_number ps) \<and>
           mset (map (\<lambda>p. (post_number p, html_content p)) ps) =
             mset (map (\<lambda>d. (post_num d, pd_html d)) (sd_posts sd))"
proof -
  obtain r where r: "series_library lib' = series_library lib @ [r]" "series_id r = sid"
    using save_series_row(1) [OF save] by blast
  have fresh: "\<forall>r \<in> set (series_library lib). series_id r \<noteq> sid"
    by (rule save_series_fresh [OF save])
  have found: "find (\<lambda>r. series_id r = sid) (series_library lib') = Some r"
    unfolding r(1) using fresh r(2) by (intro find_append_fresh) auto
  obtain new where new: "posts lib' = posts lib @ new" "\<forall>p \<in> set new. p_series_id p = sid"
      "map (\<lambda>p. (post_number p, html_content p)) new = map (\<lambda>d. (post_num d, pd_html d)) (sd_posts sd)"
    using save_series_posts [OF save] by blast
  have old: "filter (\<lambda>p. p_series_id p = sid) (posts lib) = []"
  proof -
    have "\<forall>p \<in> set (posts lib). p_series_id p \<noteq> sid"
      using inv fresh unfolding no_orphans_def by (metis imageE)
    then show ?thesis by (simp add: filter_empty_conv)
  qed
  have sel: "filter (\<lambda>p. p_series_id p = sid) (posts lib') = new"
    using new(1,2) old by simp
  define ps where "ps = sort_key post_number new"
  have details: "get_series_details sid lib' = Some (r, ps)"
    by (simp add: get_series_details_def found sel ps_def)
  have len: "length ps = length (sd_posts sd)"
  proof -
    have "length ps = length (map (\<lambda>p. (post_number p, html_content p)) new)" by (simp add: ps_def)
    then show ?thesis by (simp add: new(3))
  qed
  have srt: "sorted (map post_number ps)" by (simp add: ps_def)
  have "mset (map (\<lambda>p. (post_number p, html_content p)) ps)
        = mset (map (\<lambda>p. (post_number p, html_content p)) new)"
    by (simp add: ps_def)
  then have ms: "mset (map (\<lambda>p. (post_number p, html_content p)) ps) =
             mset (map (\<lambda>d. (post_num d, pd_html d)) (sd_posts sd))"
    by (simp add: new(3))
  from details len srt ms show ?thesis by blast
qed


definition example_series :: series_data where
  "example_series =
     \<lparr>sd_title = ''Grace'', sd_topic = ''Grace'', sd_num_posts = 2, sd_audience = ''General'',
      sd_style = ''Teaching'', sd_post_length = ''Medium'', sd_source_databases = ''{}'',
      sd_total_words = 1600, sd_cost = None, sd_status = Some ''published'',
      sd_posts =
        [\<lparr>post_num = 2, pd_html = ''<p>two</p>'', pd_title = None, pd_markdown = None,
          pd_word_count = None, pd_sources = None\<rparr>,
         \<lparr>post_num = 1, pd_html = ''<p>one</p>'', pd_title = Some ''One'', pd_markdown = None,
          pd_word_count = Some 800, pd_sources = None\<rparr>]\<rparr>"

text \<open>Claim C7 at a series of two posts saved into the new library, out of order.\<close>

theorem C7_roundtrip_witness:
  "no_orphans empty_library \<and>
   (\<exists>series ps.
      get_series_details (fst (save_series_to_library ''2026-01-01'' example_series empty_library))
        (snd (save_series_to_library ''2026-01-01'' example_series empty_library)) = Some (series, ps) \<and>
      length ps = 2 \<and> sorted (map post_number ps) \<and>
      mset (map (\<lambda>p. (post_number p, html_content p)) ps) =
        mset [(2, ''<p>two</p>''), (1, ''<p>one</p>'')])"
proof -
  have h: "no_orphans empty_library" by (simp add: no_orphans_def empty_library_def)
  have s: "save_series_to_library ''2026-01-01'' example_series empty_library =
        (fst (save_series_to_library ''2026-01-01'' example_series empty_library),
         snd (save_series_to_library ''2026-01-01'' example_series empty_library))" by simp
  have e: "sd_posts example_series =
        [\<lparr>post_num = 2, pd_html = ''<p>two</p>'', pd_title = None, pd_markdown = None,
          pd_word_count = None, pd_sources = None\<rparr>,
         \<lparr>post_num = 1, pd_html = ''<p>one</p>'', pd_title = Some ''One'', pd_markdown = None,
          pd_word_count = Some 800, pd_sources = None\<rparr>]" by (simp add: example_series_def)
  from C7_roundtrip [OF h s] show ?thesis using h by (simp add: e numeral_2_eq_2)
qed

lemma no_orphans_insert_post:
  "no_orphans l \<Longrightarrow> sid \<in> series_id ` set (series_library l) \<Longrightarrow> no_orphans (insert_post now sid l d)"
  by (simp add: no_orphans_def insert_post_def Let_def)

lemma no_orphans_fold_insert_post:
  "no_orphans l \<Longrightarrow> sid \<in> series_id ` set (series_library l) \<Longrightarrow>
   no_orphans (fold (\<lambda>post l. insert_post now sid l post) ds l)"
proof (induction ds arbitrary: l)
  case Nil
  then show ?case by simp
next
  case (Cons d ds)
  have "no_orphans (insert_post now sid l d)" using Cons.prems by (rule no_orphans_insert_post)
  moreover have "sid \<in> series_id ` set (series_library (insert_post now sid l d))"
    using Cons.prems(2) by simp
  ultimately show ?case using Cons.IH by simp
qed

lemma no_orphans_save:
  assumes "no_orphans lib"
  shows "no_orphans (snd (save_series_to_library now sd lib))"
proof -
  obtain sid lib' where save: "save_series_to_library now sd lib = (sid, lib')"
    by (cases "save_series_to_library now sd lib")
  obtain r where r: "series_library lib' = series_library lib @ [r]" "series_id r = sid"
    using save_series_row(1) [OF save] by blast
  obtain new where new: "posts lib' = posts lib @ new" "\<forall>p \<in> set new. p_series_id p = sid"
    using save_series_posts [OF save] by blast
  have "no_orphans lib'"
    unfolding no_orphans_def
  proof
    fix p assume "p \<in> set (posts lib')"
    then consider "p \<in> set (posts lib)" | "p \<in> set new" using new(1) by auto
    then show "p_series_id p \<in> series_id ` set (series_library lib')"
    proof cases
      case 1
      then have "p_series_id p \<in> series_id ` set (series_library lib)"
        using assms by (simp add: no_orphans_def)
      then show ?thesis by (auto simp: r(1))
    next
      case 2
      then have "p_series_id p = sid" using new(2) by simp
      then show ?thesis using r by simp
    qed
  qed
  then show ?thesis by (simp add: save)
qed

lemma no_orphans_delete: "no_orphans lib \<Longrightarrow> no_orphans (delete_series sid lib)"
  by (auto simp: no_orphans_def delete_series_def Let_def)

lemma no_orphans_update_status: "no_orphans lib \<Longrightarrow> no_orphans (update_status st sid lib)"
proof -
  assume a: "no_orphans lib"
  have "(series_id \<circ> (\<lambda>r. if series_id r = sid then r\<lparr>status := st\<rparr> else r)) = series_id"
    by (rule ext) simp
  then have "map series_id (series_library (update_status st sid lib)) = map series_id (series_library lib)"
    by (simp add: update_status_def)
  then have "set (map series_id (series_library (update_status st sid lib))) = set (map series_id (series_library lib))"
    by simp
  then have "series_id ` set (series_library (update_status st sid lib)) = series_id ` set (series_library lib)"
    by simp
  moreover have "posts (update_status st sid lib) = posts lib" by (simp add: update_status_def)
  ultimately show ?thesis using a by (simp add: no_orphans_def)
qed

text \<open>
  Claim C8. After \<open>delete_series(id)\<close> no post row and no series row has the id, and
  fetching the id finds nothing; the new library has no orphaned posts, and deleting,
  saving and updating a status keep it so.
\<close>

theorem C8_delete_cascade:
  "(\<forall>p \<in> set (posts (delete_series sid lib)). p_series_id p \<noteq> sid) \<and>
   (\<forall>r \<in> set (series_library (delete_series sid lib)). series_id r \<noteq> sid) \<and>
   get_series_details sid (delete_series sid lib) = None \<and>
   no_orphans empty_library \<and>
   (no_orphans lib \<longrightarrow>
      no_orphans (delete_series sid lib) \<and>
      no_orphans (snd (save_series_to_library now sd lib)) \<and>
      no_orphans (update_status st sid lib))"
proof -
  have "find (\<lambda>r. series_id r = sid) (filter (\<lambda>r. series_id r \<noteq> sid) (series_library lib)) = None"
    by (simp add: find_None_iff)
  then have "get_series_details sid (delete_series sid lib) = None"
    by (simp add: get_series_details_def delete_series_def Let_def)
  moreover have "no_orphans empty_library" by (simp add: no_orphans_def empty_library_def)
  moreover have "\<forall>p \<in> set (posts (delete_series sid lib)). p_series_id p \<noteq> sid"
    by (simp add: delete_series_def Let_def)
  moreover have "\<forall>r \<in> set (series_library (delete_series sid lib)). series_id r \<noteq> sid"
    by (simp add: delete_series_def Let_def)
  ultimately show ?thesis
    using no_orphans_delete no_orphans_save no_orphans_update_status by blast
qed

definition example_library :: library where
  "example_library = snd (save_series_to_library ''2026-01-01'' example_series empty_library)"

lemma str_of_int_2: "str_of_int 2 = ''2''"
  by code_simp

lemma example_library_eq:
  "example_library =
     \<lparr>series_library =
        [\<lparr>series_id = 1, series_title = ''Grace'', topic_col = ''Grace'', num_posts = 2,
          audience = ''General'', style = ''Teaching'', post_length = ''Medium'',
          date_created = ''2026-01-01'', source_databases = ''{}'', total_words = 1600,
          total_cost = 0, status = ''draft'', tags_col = None, notes_col = None\<rparr>],
      posts =
        [\<lparr>post_id = 1, p_series_id = 1, post_number = 2, post_title = ''Post 2'',
          html_content = ''<p>two</p>'', markdown_content = [], word_count = 0,
          sources_used = ''[]'', p_date_created = ''2026-01-01''\<rparr>,
         \<lparr>post_id = 2, p_series_id = 1, post_number = 1, post_title = ''One'',
          html_content = ''<p>one</p>'', markdown_content = [], word_count = 800,
          sources_used = ''[]'', p_date_created = ''2026-01-01''\<rparr>],
      series_seq = 1, posts_seq = 2\<rparr>"
  by (simp add: example_library_def save_series_to_library_def example_series_def
      empty_library_def insert_post_def next_rowid_def Let_def str_of_int_2)

text \<open>Claim C8 at the library that holds the example series.\<close>

theorem C8_delete_cascade_witness:
  "no_orphans example_library \<and>
   posts example_library \<noteq> [] \<and>
   posts (delete_series 1 example_library) = [] \<and>
   series_library (delete_series 1 example_library) = [] \<and>
   no_orphans (delete_series 1 example_library) \<and>
   no_orphans (snd (save_series_to_library ''2026-01-02'' example_series example_library)) \<and>
   no_orphans (update_status ''published'' 1 example_library)"
proof -
  have h: "no_orphans example_library"
    by (simp add: example_library_eq no_orphans_def)
  have d: "posts (delete_series 1 example_library) = []"
      "series_library (delete_series 1 example_library) = []"
    by (simp_all add: example_library_eq delete_series_def Let_def)
  have n: "posts example_library \<noteq> []" by (simp add: example_library_eq)
  from C8_delete_cascade [of 1 example_library "''2026-01-02''" example_series "''published''"]
  show ?thesis using h d n by simp
qed

subsection \<open>The status of a saved series\<close>

text \<open>
  The operations that change the library: a save, a delete and the status update of
  the library page. The read operations leave it as it is.
\<close>

datatype library_op =
  SaveSeries string series_data
| DeleteSeries nat
| UpdateStatus string nat

fun apply_op :: "library_op \<Rightarrow> library \<Rightarrow> library" where
  "apply_op (SaveSeries now sd) lib = snd (save_series_to_library now sd lib)"
| "apply_op (DeleteSeries sid) lib = delete_series sid lib"
| "apply_op (UpdateStatus new_status sid) lib = update_status new_status sid lib"

definition run_ops :: "library_op list \<Rightarrow> library \<Rightarrow> library" where
  "run_ops ops lib = fold apply_op ops lib"

text \<open>An operation that updates the status of the series \<open>sid\<close> or deletes it.\<close>

fun touches :: "nat \<Rightarrow> library_op \<Rightarrow> bool" where
  "touches sid (SaveSeries now sd) = False"
| "touches sid (DeleteSeries i) = (i = sid)"
| "touches sid (UpdateStatus new_status i) = (i = sid)"

text \<open>The status the library shows for a series: in its details, and in the listing.\<close>

definition status_of :: "nat \<Rightarrow> library \<Rightarrow> string option" where
  "status_of sid lib = map_option (\<lambda>(series, ps). status series) (get_series_details sid lib)"

definition listed_statuses :: "nat \<Rightarrow> library \<Rightarrow> string list" where
  "listed_statuses sid lib =
     map (\<lambda>(i, t, tp, n, a, d, st, w). st)
       (filter (\<lambda>(i, t, tp, n, a, d, st, w). i = sid) (get_all_series lib))"

lemma find_filter:
  "find P xs = (case filter P xs of [] \<Rightarrow> None | x # _ \<Rightarrow> Some x)"
  by (induction xs) auto

lemma status_of_rows:
  "map status (filter (\<lambda>r. series_id r = sid) (series_library lib)) = [st] \<Longrightarrow>
   status_of sid lib = Some st"
  by (auto simp: status_of_def get_series_details_def find_filter split: list.splits)

lemma listed_statuses_rows:
  assumes "map status (filter (\<lambda>r. series_id r = sid) (series_library lib)) = [st]"
  shows "listed_statuses sid lib = [st]"
proof -
  let ?tup = "\<lambda>r. (series_id r, series_title r, topic_col r, num_posts r, audience r,
               date_created r, status r, total_words r)"
  let ?sorted = "rev (sort_key date_created (rev (series_library lib)))"
  have "listed_statuses sid lib = map status (filter (\<lambda>r. series_id r = sid) ?sorted)"
    by (simp add: listed_statuses_def get_all_series_def filter_map o_def case_prod_beta)
  moreover have "mset (filter (\<lambda>r. series_id r = sid) ?sorted) =
        mset (filter (\<lambda>r. series_id r = sid) (series_library lib))"
    by simp
  then have "mset (map status (filter (\<lambda>r. series_id r = sid) ?sorted)) =
        mset (map status (filter (\<lambda>r. series_id r = sid) (series_library lib)))"
    by (metis mset_map)
  then have "mset (map status (filter (\<lambda>r. series_id r = sid) ?sorted)) = mset [st]"
    using assms by simp
  then have "map status (filter (\<lambda>r. series_id r = sid) ?sorted) = [st]"
    by (metis mset_single_iff_right mset.simps(1) mset_zero_iff add_mset_eq_single
        list.exhaust mset.simps(2))
  ultimately show ?thesis by simp
qed

lemma rows_apply_op:
  assumes "\<not> touches sid op" and "filter (\<lambda>r. series_id r = sid) (series_library lib) \<noteq> []"
  shows "filter (\<lambda>r. series_id r = sid) (series_library (apply_op op lib)) =
         filter (\<lambda>r. series_id r = sid) (series_library lib)"
proof (cases op)
  case (SaveSeries now sd)
  obtain new lib' where save: "save_series_to_library now sd lib = (new, lib')"
    by (cases "save_series_to_library now sd lib")
  obtain r where r: "series_library lib' = series_library lib @ [r]" "series_id r = new"
    using save_series_row(1) [OF save] by blast
  from assms(2) obtain x where "x \<in> set (series_library lib)" "series_id x = sid"
    by (metis (mono_tags, lifting) filter_False)
  with save_series_fresh [OF save] have "new \<noteq> sid" by blast
  with r SaveSeries save show ?thesis by simp
next
  case (DeleteSeries i)
  with assms(1) have "i \<noteq> sid" by simp
  then have "filter (\<lambda>r. series_id r = sid) (filter (\<lambda>r. series_id r \<noteq> i) (series_library lib)) =
        filter (\<lambda>r. series_id r = sid) (series_library lib)"
    by (auto intro: filter_cong)
  with DeleteSeries show ?thesis by (simp add: delete_series_def Let_def)
next
  case (UpdateStatus new_status i)
  with assms(1) have "i \<noteq> sid" by simp
  then have "filter (\<lambda>r. series_id r = sid)
          (map (\<lambda>r. if series_id r = i then r\<lparr>status := new_status\<rparr> else r) xs) =
        filter (\<lambda>r. series_id r = sid) xs" for xs
    by (induction xs) auto
  with UpdateStatus show ?thesis by (simp add: update_status_def)
qed

lemma rows_run_ops:
  assumes "\<forall>op \<in> set ops. \<not> touches sid op"
    and "filter (\<lambda>r. series_id r = sid) (series_library lib) \<noteq> []"
  shows "filter (\<lambda>r. series_id r = sid) (series_library (run_ops ops lib)) =
         filter (\<lambda>r. series_id r = sid) (series_library lib)"
  using assms unfolding run_ops_def
proof (induction ops arbitrary: lib)
  case Nil
  then show ?case by simp
next
  case (Cons op ops)
  have 1: "filter (\<lambda>r. series_id r = sid) (series_library (apply_op op lib)) =
         filter (\<lambda>r. series_id r = sid) (series_library lib)"
    using Cons.prems by (intro rows_apply_op) simp_all
  with Cons.prems have "filter (\<lambda>r. series_id r = sid) (series_library (apply_op op lib)) \<noteq> []"
    by simp
  with Cons.IH [of "apply_op op lib"] Cons.prems(1) 1 show ?case by simp
qed

lemma rows_after_save:
  assumes "save_series_to_library now sd lib = (sid, lib')"
  shows "map status (filter (\<lambda>r. series_id r = sid) (series_library lib')) = [''draft'']"
proof -
  obtain r where r: "series_library lib' = series_library lib @ [r]" "series_id r = sid"
      "status r = ''draft''"
    using save_series_row(1) [OF assms] by blast
  have "filter (\<lambda>r. series_id r = sid) (series_library lib) = []"
    using save_series_fresh [OF assms] by (simp add: filter_empty_conv)
  with r show ?thesis by simp
qed

lemma rows_update_status:
  "map status (filter (\<lambda>r. series_id r = sid) (series_library (update_status st sid lib))) =
   map (\<lambda>r. st) (filter (\<lambda>r. series_id r = sid) (series_library lib))"
proof -
  have "map status (filter (\<lambda>r. series_id r = sid)
          (map (\<lambda>r. if series_id r = sid then r\<lparr>status := st\<rparr> else r) xs)) =
        map (\<lambda>r. st) (filter (\<lambda>r. series_id r = sid) xs)" for xs
    by (induction xs) auto
  then show ?thesis by (simp add: update_status_def)
qed


text \<open>
  Claim C10. The series that \<open>save_series_to_library\<close> stores has the status
  \<open>draft\<close>, in the details fetched by its id and in the listing of the library, and
  a \<open>status\<close> carried by the argument changes nothing in the result. It stays a
  draft, in the details and in the listing, through every sequence of saves, deletes
  and status updates that neither updates the status of this series nor deletes it;
  a status update of the series then gives it the new status.
\<close>

theorem C10_saved_as_draft:
  assumes save: "save_series_to_library now sd lib = (sid, lib')"
  shows "(\<exists>series ps. get_series_details sid lib' = Some (series, ps) \<and> status series = ''draft'') \<and>
         (sid, sd_title sd, sd_topic sd, sd_num_posts sd, sd_audience sd, now, ''draft'',
            sd_total_words sd) \<in> set (get_all_series lib') \<and>
         save_series_to_library now (sd\<lparr>sd_status := other\<rparr>) lib = (sid, lib') \<and>
         ((\<forall>op \<in> set ops. \<not> touches sid op) \<longrightarrow>
            status_of sid (run_ops ops lib') = Some ''draft'' \<and>
            listed_statuses sid (run_ops ops lib') = [''draft''] \<and>
            status_of sid (update_status new_status sid (run_ops ops lib')) = Some new_status \<and>
            listed_statuses sid (update_status new_status sid (run_ops ops lib')) = [new_status])"
proof -
  obtain r where r: "series_library lib' = series_library lib @ [r]" "series_id r = sid"
      "status r = ''draft''" "series_title r = sd_title sd" "topic_col r = sd_topic sd"
      "num_posts r = sd_num_posts sd" "audience r = sd_audience sd"
      "date_created r = now" "total_words r = sd_total_words sd"
    using save_series_row(1) [OF save] by blast
  have fresh: "\<forall>r \<in> set (series_library lib). series_id r \<noteq> sid"
    by (rule save_series_fresh [OF save])
  have found: "find (\<lambda>r. series_id r = sid) (series_library lib') = Some r"
    unfolding r(1) using fresh r(2) by (intro find_append_fresh) auto
  have a: "\<exists>series ps. get_series_details sid lib' = Some (series, ps) \<and> status series = ''draft''"
    by (simp add: get_series_details_def found r(3))
  have "r \<in> set (series_library lib')" by (simp add: r(1))
  then have "(series_id r, series_title r, topic_col r, num_posts r, audience r,
               date_created r, status r, total_words r) \<in> set (get_all_series lib')"
    by (simp add: get_all_series_def image_iff) blast
  then have b: "(sid, sd_title sd, sd_topic sd, sd_num_posts sd, sd_audience sd, now, ''draft'',
            sd_total_words sd) \<in> set (get_all_series lib')"
    by (simp add: r)
  have c: "save_series_to_library now (sd\<lparr>sd_status := other\<rparr>) lib = (sid, lib')"
    using save by (simp add: save_series_to_library_def)
  have d: "(\<forall>op \<in> set ops. \<not> touches sid op) \<longrightarrow>
            status_of sid (run_ops ops lib') = Some ''draft'' \<and>
            listed_statuses sid (run_ops ops lib') = [''draft''] \<and>
            status_of sid (update_status new_status sid (run_ops ops lib')) = Some new_status \<and>
            listed_statuses sid (update_status new_status sid (run_ops ops lib')) = [new_status]"
  proof
    assume o: "\<forall>op \<in> set ops. \<not> touches sid op"
    have s0: "map status (filter (\<lambda>r. series_id r = sid) (series_library lib')) = [''draft'']"
      by (rule rows_after_save [OF save])
    then have "filter (\<lambda>r. series_id r = sid) (series_library lib') \<noteq> []" by auto
    from rows_run_ops [OF o this]
    have s1: "map status (filter (\<lambda>r. series_id r = sid) (series_library (run_ops ops lib'))) =
              [''draft'']"
      using s0 by simp
    then have "length (filter (\<lambda>r. series_id r = sid) (series_library (run_ops ops lib'))) = 1"
      by (metis length_map length_Cons list.size(3) One_nat_def)
    then have s2: "map status (filter (\<lambda>r. series_id r = sid)
              (series_library (update_status new_status sid (run_ops ops lib')))) = [new_status]"
      by (simp add: rows_update_status map_replicate_const)
    from s1 s2 show "status_of sid (run_ops ops lib') = Some ''draft'' \<and>
            listed_statuses sid (run_ops ops lib') = [''draft''] \<and>
            status_of sid (update_status new_status sid (run_ops ops lib')) = Some new_status \<and>
            listed_statuses sid (update_status new_status sid (run_ops ops lib')) = [new_status]"
      by (simp add: status_of_rows listed_statuses_rows)
  qed
  from a b c d show ?thesis by (intro conjI)
qed

definition example_ops :: "library_op list" where
  "example_ops =
     [SaveSeries ''2026-01-02'' example_series, UpdateStatus ''published'' 2, DeleteSeries 2,
      SaveSeries ''2026-01-03'' example_series]"

text \<open>
  Claim C10 at the example series, whose argument carries the status \<open>published\<close>,
  followed by a second save, the publication and the deletion of that second series,
  and a third save.
\<close>

theorem C10_saved_as_draft_witness:
  "(\<exists>series ps. get_series_details 1 example_library = Some (series, ps) \<and> status series = ''draft'') \<and>
   (1, ''Grace'', ''Grace'', 2, ''General'', ''2026-01-01'', ''draft'', 1600) \<in> set (get_all_series example_library) \<and>
   sd_status example_series = Some ''published'' \<and>
   save_series_to_library ''2026-01-01'' (example_series\<lparr>sd_status := None\<rparr>) empty_library = (1, example_library) \<and>
   status_of 1 (run_ops example_ops example_library) = Some ''draft'' \<and>
   listed_statuses 1 (run_ops example_ops example_library) = [''draft''] \<and>
   status_of 1 (update_status ''published'' 1 (run_ops example_ops example_library)) = Some ''published''"
proof -
  have s: "save_series_to_library ''2026-01-01'' example_series empty_library = (1, example_library)"
    by (simp add: example_library_def save_series_to_library_def Let_def next_rowid_def empty_library_def)
  have e: "sd_title example_series = ''Grace''" "sd_topic example_series = ''Grace''"
      "sd_num_posts example_series = 2" "sd_audience example_series = ''General''"
      "sd_total_words example_series = 1600" "sd_status example_series = Some ''published''"
    by (simp_all add: example_series_def)
  have o: "\<forall>op \<in> set example_ops. \<not> touches 1 op" by (simp add: example_ops_def)
  from C10_saved_as_draft [OF s, of None example_ops "''published''"] o show ?thesis by (simp add: e)
qed

section \<open>The corpus database and schema detection\<close>

text \<open>
  A corpus database is read through SQLite. Its catalogue \<open>sqlite_master\<close> is a list of
  entries in the order a scan returns them; an entry has the type of the object
  (\<open>table\<close>, \<open>index\<close>, \<open>view\<close>), its name, and for a table the column names as
  \<open>PRAGMA table_info\<close> lists them and the rows in storage order. A cell is a text or
  \<open>NULL\<close>.
\<close>

record master_entry =
  m_type :: string
  m_name :: string
  m_columns :: "string list"
  m_rows :: "string option list list"

type_synonym database = "master_entry list"

text \<open>
  SQLite folds case on the letters A to Z only: in \<open>LOWER\<close>, in \<open>LIKE\<close>, and when
  it resolves a column name of a statement against the columns of the table.
\<close>

definition sql_lower_char :: "char \<Rightarrow> char" where
  "sql_lower_char c =
     (let n = (of_char c :: int) in if 65 \<le> n \<and> n \<le> 90 then char_of (n + 32) else c)"

definition sql_lower :: "string \<Rightarrow> string" where
  "sql_lower s = map sql_lower_char s"

fun column_index :: "string list \<Rightarrow> string \<Rightarrow> nat option" where
  "column_index [] c = None"
| "column_index (n # ns) c =
     (if sql_lower n = sql_lower c then Some 0 else map_option Suc (column_index ns c))"


definition cell :: "string option list \<Rightarrow> nat \<Rightarrow> string option" where
  "cell row i = (if i < length row then row ! i else None)"

text \<open>The text column \<open>col\<close> of a table, one value per row.\<close>

definition column_values :: "master_entry \<Rightarrow> string \<Rightarrow> string option list option" where
  "column_values t col =
     (case column_index (m_columns t) col of
        None \<Rightarrow> None
      | Some i \<Rightarrow> Some (map (\<lambda>row. cell row i) (m_rows t)))"

datatype sql_error = DatabaseError | OperationalError

text \<open>
  \<open>LENGTH(x)\<close> of a text: the number of characters before its first U+0000.
\<close>

definition sql_length :: "string \<Rightarrow> nat" where
  "sql_length t = length (takeWhile (\<lambda>c. c \<noteq> CHR 0x00) t)"

text \<open>
  \<open>SELECT SUM(LENGTH(col)) FROM t\<close>: an \<open>OperationalError\<close> (no such column) when
  the name does not resolve, \<open>NULL\<close> when no row has a text there.
\<close>

definition sum_length :: "master_entry \<Rightarrow> string \<Rightarrow> sql_error + nat option" where
  "sum_length t col =
     (case column_values t col of
        None \<Rightarrow> Inl OperationalError
      | Some vs \<Rightarrow>
          (let lens = map sql_length (List.map_filter id vs)
           in Inr (if lens = [] then None else Some (sum_list lens))))"

text \<open>
  The \<open>WHERE\<close> clause both schema detectors send to \<open>sqlite_master\<close>:
  \<open>type='table' AND (name='transcripts' OR name='video_transcripts')\<close>.
\<close>

definition accepted_table :: "master_entry \<Rightarrow> bool" where
  "accepted_table e \<longleftrightarrow>
     m_type e = ''table'' \<and> (m_name e = ''transcripts'' \<or> m_name e = ''video_transcripts'')"

text \<open>
  \<open>detect_schema(conn)\<close> of \<open>compare.py\<close>, on an open connection; \<open>fetchone\<close> takes the
  first row of the catalogue query. The result is the pair the function returns,
  \<open>(None, None)\<close> for not found.
\<close>

definition detect_schema :: "database \<Rightarrow> string option \<times> string option" where
  "detect_schema db =
     (case find accepted_table db of
        None \<Rightarrow> (None, None)
      | Some result \<Rightarrow>
          (let table_name = m_name result;
               columns = m_columns result
           in if ''transcript_text'' \<in> set columns then (Some table_name, Some ''transcript_text'')
              else if ''transcript'' \<in> set columns then (Some table_name, Some ''transcript'')
              else (None, None)))"

text \<open>
  The file behind \<open>db_path\<close> for \<open>get_database_info\<close> of \<open>devotional_generator.py\<close>:
  a database, or a file on which \<open>sqlite3\<close> raises.
\<close>

datatype db_file = Unreadable | Database database

record db_info =
  info_table_name :: string
  info_transcript_col :: string
  info_count :: nat
  info_total_chars :: nat

text \<open>The body of the \<open>try\<close> block of \<open>get_database_info\<close>; \<open>Inl\<close> is a raised exception.\<close>

definition get_database_info_try :: "db_file \<Rightarrow> sql_error + db_info option" where
  "get_database_info_try file =
     (case file of
        Unreadable \<Rightarrow> Inl DatabaseError
      | Database db \<Rightarrow>
          (case find accepted_table db of
             None \<Rightarrow> Inr None
           | Some result \<Rightarrow>
               (let table_name = m_name result;
                    count = length (m_rows result);
                    columns = m_columns result;
                    transcript_col =
                      (if ''transcript_text'' \<in> set columns then ''transcript_text''
                       else ''transcript'')
                in case sum_length result transcript_col of
                     Inl e \<Rightarrow> Inl e
                   | Inr chars \<Rightarrow>
                       Inr (Some \<lparr>info_table_name = table_name,
                                  info_transcript_col = transcript_col,
                                  info_count = count,
                                  info_total_chars = (case chars of None \<Rightarrow> 0 | Some n \<Rightarrow> n)\<rparr>))))"

text \<open>
  \<open>get_database_info(db_path)\<close>: the \<open>except Exception\<close> clause reports the error on
  the page and returns \<open>None\<close>.
\<close>

definition get_database_info :: "db_file \<Rightarrow> db_info option" where
  "get_database_info file =
     (case get_database_info_try file of Inl e \<Rightarrow> None | Inr info \<Rightarrow> info)"

subsection \<open>Properties of schema detection\<close>









text \<open>A table whose text column is spelled \<open>Transcript\<close>.\<close>

definition capital_db :: database where
  "capital_db =
     [\<lparr>m_type = ''table'', m_name = ''transcripts'',
        m_columns = [''id'', ''Transcript''], m_rows = [[Some ''1'', Some ''grace'']]\<rparr>]"



text \<open>
  Claim C3 as stated fails for \<open>get_database_info\<close> at the table whose text column is
  spelled \<open>Transcript\<close>: neither accepted name is in the list of columns, and
  \<open>detect_schema\<close> returns \<open>(None, None)\<close>, but \<open>get_database_info\<close> returns a record
  and no sentinel.
\<close>

theorem C3_counterexample:
  "''transcript_text'' \<notin> set (m_columns (hd capital_db)) \<and>
   ''transcript'' \<notin> set (m_columns (hd capital_db)) \<and>
   detect_schema capital_db = (None, None) \<and>
   get_database_info (Database capital_db) =
     Some \<lparr>info_table_name = ''transcripts'', info_transcript_col = ''transcript'',
           info_count = 1, info_total_chars = 5\<rparr>"
  by code_simp

section \<open>The topic comparison (compare.py, Compare Teachers)\<close>

text \<open>
  SQLite's \<open>LIKE\<close>, as the queries of \<open>compare.py\<close> use it (no \<open>ESCAPE\<close>): in the
  pattern \<open>%\<close> matches any run of characters, empty or not, \<open>_\<close> matches one character,
  and any other character matches itself with the case of A to Z folded.
\<close>

fun sql_like :: "string \<Rightarrow> string \<Rightarrow> bool" where
  "sql_like [] [] = True"
| "sql_like [] (c # s) = False"
| "sql_like (p # ps) [] = (p = CHR ''%'' \<and> sql_like ps [])"
| "sql_like (p # ps) (c # s) =
     (if p = CHR ''%'' then sql_like ps (c # s) \<or> sql_like (p # ps) s
      else (p = CHR ''_'' \<or> sql_lower_char p = sql_lower_char c) \<and> sql_like ps s)"

text \<open>
  The condition \<open>LOWER(col) LIKE ?\<close> with the parameter \<open>f'%{term.lower()}%'\<close>, on one
  cell; it is not true of \<open>NULL\<close>.
\<close>

definition like_term :: "string \<Rightarrow> string option \<Rightarrow> bool" where
  "like_term term x =
     (case x of
        None \<Rightarrow> False
      | Some text \<Rightarrow> sql_like (''%'' @ lower term @ ''%'') (sql_lower text))"

text \<open>\<open>SELECT COUNT(*) FROM t WHERE LOWER(col) LIKE ?\<close> on the cells of the text column.\<close>

definition count_like :: "string option list \<Rightarrow> string \<Rightarrow> nat" where
  "count_like col term = length (filter (like_term term) col)"

text \<open>\<open>SELECT COUNT(*) ... WHERE col IS NOT NULL\<close>: \<open>total_count1\<close> and \<open>total_count2\<close>.\<close>

definition total_count :: "string option list \<Rightarrow> nat" where
  "total_count col = length (filter (\<lambda>x. x \<noteq> None) col)"

text \<open>
  One entry of \<open>results\<close>. The percentages are the quotients before they are
  formatted to one decimal for the table; the label \<open>topic.title()\<close> of the entry is
  left as the topic.
\<close>

record comparison =
  cmp_topic :: string
  cmp_count1 :: nat
  cmp_pct1 :: rat
  cmp_count2 :: nat
  cmp_pct2 :: rat
  cmp_difference :: int

text \<open>The body of the loop \<open>for topic in topics\<close>, on the text columns of the two corpora.\<close>

definition compare_topic :: "string option list \<Rightarrow> string option list \<Rightarrow> string \<Rightarrow> comparison" where
  "compare_topic col1 col2 topic =
     (let total_count1 = total_count col1;
          total_count2 = total_count col2;
          count1 = count_like col1 topic;
          count2_val = count_like col2 topic;
          pct1 = (if total_count1 > 0 then of_nat count1 / of_nat total_count1 * 100 else 0);
          pct2 = (if total_count2 > 0 then of_nat count2_val / of_nat total_count2 * 100 else 0)
      in \<lparr>cmp_topic = topic, cmp_count1 = count1, cmp_pct1 = pct1,
          cmp_count2 = count2_val, cmp_pct2 = pct2,
          cmp_difference = int count1 - int count2_val\<rparr>)"

definition compare_topics ::
  "string option list \<Rightarrow> string option list \<Rightarrow> string list \<Rightarrow> comparison list" where
  "compare_topics col1 col2 topics = map (compare_topic col1 col2) topics"





subsection \<open>Properties of the topic comparison\<close>



lemma sql_like_percent [simp]: "sql_like ''%'' s"
  by (induction s) simp_all




lemma of_char_int_range: "0 \<le> (of_char c :: int)" "(of_char c :: int) < 256"
proof -
  have "(of_char c :: int) mod 256 = of_char c" by (rule of_char_mod_256)
  then show "0 \<le> (of_char c :: int)" "(of_char c :: int) < 256"
    by (metis pos_mod_sign zero_less_numeral, metis pos_mod_bound zero_less_numeral)
qed

lemma of_char_lower_char:
  "(of_char (lower_char c) :: int) =
     (if (65 \<le> (of_char c :: int) \<and> (of_char c :: int) \<le> 90) \<or>
         (192 \<le> (of_char c :: int) \<and> (of_char c :: int) \<le> 222 \<and> (of_char c :: int) \<noteq> 215)
      then of_char c + 32 else of_char c)"
  using of_char_int_range [of c] by (auto simp: lower_char_def Let_def)

lemma of_char_sql_lower_char:
  "(of_char (sql_lower_char c) :: int) =
     (if 65 \<le> (of_char c :: int) \<and> (of_char c :: int) \<le> 90 then of_char c + 32 else of_char c)"
  using of_char_int_range [of c] by (auto simp: sql_lower_char_def Let_def)




lemma sql_lower_char_lower_char [simp]: "sql_lower_char (lower_char c) = lower_char c"
proof -
  have "(of_char (sql_lower_char (lower_char c)) :: int) = of_char (lower_char c)"
    by (simp add: of_char_sql_lower_char of_char_lower_char)
  then show ?thesis by (simp only: of_char_eq_iff)
qed

lemma sql_lower_char_idem [simp]: "sql_lower_char (sql_lower_char c) = sql_lower_char c"
proof -
  have "(of_char (sql_lower_char (sql_lower_char c)) :: int) = of_char (sql_lower_char c)"
    by (simp add: of_char_sql_lower_char)
  then show ?thesis by (simp only: of_char_eq_iff)
qed
















section \<open>The series detector (ComprehensiveAnalyzer.detect_series)\<close>

subsection \<open>The two regular expressions\<close>

text \<open>
  \<open>\s+-\s+Part|\s+Part\<close> matched at the start of \<open>s\<close>. Neither \<open>-\<close> nor \<open>P\<close> is
  whitespace, so each \<open>\s+\<close> takes the whole run of whitespace.
\<close>

definition part_match_here :: "string \<Rightarrow> bool" where
  "part_match_here s =
     (case s of
        [] \<Rightarrow> False
      | c # _ \<Rightarrow>
          isspace c \<and>
          (let r = dropWhile isspace s
           in (case r of
                 [] \<Rightarrow> False
               | d # r' \<Rightarrow>
                   (d = CHR ''-'' \<and>
                      (case r' of
                         [] \<Rightarrow> False
                       | e # _ \<Rightarrow> isspace e \<and> prefix ''Part'' (dropWhile isspace r')))
                   \<or> prefix ''Part'' r)))"

text \<open>
  \<open>re.split(r'\s+-\s+Part|\s+Part', title)[0]\<close>: the text before the leftmost match,
  the whole title when nothing matches.
\<close>

fun before_part :: "string \<Rightarrow> string" where
  "before_part [] = []"
| "before_part (c # s) = (if part_match_here (c # s) then [] else c # before_part s)"

text \<open>
  \<open>\s+\d+$\<close> matched on the whole of \<open>r\<close>: whitespace, digits, and then the end of
  the string or the newline that ends it.
\<close>

definition number_tail :: "string \<Rightarrow> bool" where
  "number_tail r =
     (case r of
        [] \<Rightarrow> False
      | c # _ \<Rightarrow>
          isspace c \<and>
          (let d = dropWhile isspace r;
               e = dropWhile isdigit d
           in d \<noteq> [] \<and> isdigit (hd d) \<and> (e = [] \<or> e = [CHR 0x0A])))"

text \<open>
  The group of \<open>re.match(r'(.+?)\s+\d+$', title)\<close>, \<open>None\<close> when there is no match.
  The group is not greedy: it is the shortest prefix of one character or more, none
  of them a newline, that leaves a rest \<open>\s+\d+$\<close> matches. \<open>acc\<close> is the prefix
  tried.
\<close>

fun shortest_group :: "string \<Rightarrow> string \<Rightarrow> string option" where
  "shortest_group acc [] = None"
| "shortest_group acc (c # r) =
     (if number_tail (c # r) then Some acc
      else if c = CHR 0x0A then None
      else shortest_group (acc @ [c]) r)"

definition trailing_number_group :: "string \<Rightarrow> string option" where
  "trailing_number_group t =
     (case t of
        [] \<Rightarrow> None
      | c # r \<Rightarrow> if c = CHR 0x0A then None else shortest_group [c] r)"

subsection \<open>The counter\<close>

text \<open>
  A \<open>collections.Counter\<close>: the keys in the order of their first insertion, each with
  its count. \<open>incr\<close> is \<open>series[name] += 1\<close>.
\<close>

type_synonym counter = "(string \<times> nat) list"

fun incr :: "counter \<Rightarrow> string \<Rightarrow> counter" where
  "incr [] k = [(k, 1)]"
| "incr ((k', n) # c) k = (if k' = k then (k', n + 1) # c else (k', n) # incr c k)"

text \<open>\<open>series[name]\<close>: a missing key counts 0.\<close>

fun count_of :: "counter \<Rightarrow> string \<Rightarrow> nat" where
  "count_of [] k = 0"
| "count_of ((k', n) # c) k = (if k' = k then n else count_of c k)"

text \<open>
  \<open>Counter.most_common(n)\<close>: the items sorted by count, largest first, items of equal
  count in the order of their insertion; the first \<open>n\<close> of them.
\<close>

definition most_common :: "nat \<Rightarrow> counter \<Rightarrow> (string \<times> nat) list" where
  "most_common n c = take n (sort_key (\<lambda>(k, v). - int v) c)"

subsection \<open>The detector\<close>

text \<open>The test of the second branch: \<open>' - Part ' in title or ' Part ' in title\<close>.\<close>

definition has_part :: "string \<Rightarrow> bool" where
  "has_part t \<longleftrightarrow> contains t '' - Part '' \<or> contains t '' Part ''"

text \<open>\<open>s.split(sep)[0]\<close>: the text before the first separator, or all of \<open>s\<close>.\<close>

definition first_part :: "'a list \<Rightarrow> 'a list \<Rightarrow> 'a list" where
  "first_part sep s = (case find_first sep s of None \<Rightarrow> s | Some i \<Rightarrow> take i s)"

text \<open>
  The names the first two patterns take from a title:
  \<open>title.split(':')[0].strip()\<close> and \<open>re.split(...)[0].strip()\<close>.
\<close>

definition colon_name :: "string \<Rightarrow> string" where
  "colon_name t = strip (first_part '':'' t)"

definition part_name :: "string \<Rightarrow> string" where
  "part_name t = strip (before_part t)"

text \<open>
  The body of the loop \<open>for title in titles\<close>: an \<open>if\<close> with an \<open>elif\<close> for the
  patterns 1 and 2, then a second \<open>if\<close> for pattern 3.
\<close>

definition detect_title :: "counter \<Rightarrow> string \<Rightarrow> counter" where
  "detect_title series t =
     (let series1 =
            (if contains t '':'' then incr series (colon_name t)
             else if has_part t then incr series (part_name t)
             else series)
      in (case trailing_number_group t of
            Some g \<Rightarrow> incr series1 (strip g)
          | None \<Rightarrow> series1))"

text \<open>The counter after the loop, for the titles the query returns (none is \<open>NULL\<close>).\<close>

definition series_counter :: "string list \<Rightarrow> counter" where
  "series_counter titles = fold (\<lambda>t series. detect_title series t) titles []"

text \<open>
  \<open>detect_series()\<close>: \<open>{k: v for k, v in series.most_common(20) if v >= 3}\<close>, a
  dictionary in the order of the items.
\<close>

definition detect_series :: "string list \<Rightarrow> (string \<times> nat) list" where
  "detect_series titles = filter (\<lambda>(k, v). v \<ge> 3) (most_common 20 (series_counter titles))"

subsection \<open>Properties of the series detector\<close>

lemma count_of_incr: "count_of (incr c k) k' = count_of c k' + (if k = k' then 1 else 0)"
  by (induction c k rule: incr.induct) auto

lemma keys_incr: "set (map fst (incr c k)) = insert k (set (map fst c))"
  by (induction c k rule: incr.induct) auto

lemma distinct_incr: "distinct (map fst c) \<Longrightarrow> distinct (map fst (incr c k))"
proof (induction c k rule: incr.induct)
  case (1 k)
  then show ?case by simp
next
  case (2 k' n c k)
  show ?case
  proof (cases "k' = k")
    case True
    with 2 show ?thesis by simp
  next
    case False
    have "k' \<notin> set (map fst (incr c k))" using 2(2) False by (simp only: keys_incr) auto
    moreover have "distinct (map fst (incr c k))" using 2 False by simp
    ultimately show ?thesis using False by simp
  qed
qed

lemma distinct_detect_title: "distinct (map fst c) \<Longrightarrow> distinct (map fst (detect_title c t))"
  by (auto simp: detect_title_def Let_def distinct_incr split: option.splits)

lemma distinct_fold_detect:
  "distinct (map fst c) \<Longrightarrow> distinct (map fst (fold (\<lambda>t series. detect_title series t) ts c))"
  by (induction ts arbitrary: c) (simp_all add: distinct_detect_title)

lemma distinct_series_counter: "distinct (map fst (series_counter titles))"
  by (simp add: series_counter_def distinct_fold_detect)

lemma count_of_member: "distinct (map fst c) \<Longrightarrow> (k, v) \<in> set c \<Longrightarrow> count_of c k = v"
  by (induction c) (auto simp: rev_image_eqI)

lemma set_most_common: "set (most_common n c) \<subseteq> set c"
  by (auto simp: most_common_def dest: in_set_takeD)

lemma sorted_most_common: "sorted_wrt (\<lambda>a b. snd a \<ge> snd b) (most_common n c)"
proof -
  have "sorted (map (\<lambda>(k, v). - int v) (sort_key (\<lambda>(k, v). - int v) c))" by (rule sorted_sort_key)
  then have "sorted_wrt (\<lambda>a b. (case a of (k, v) \<Rightarrow> - int v) \<le> (case b of (k, v) \<Rightarrow> - int v))
               (sort_key (\<lambda>(k, v). - int v) c)"
    by (simp add: sorted_map)
  then have "sorted_wrt (\<lambda>a b. snd a \<ge> snd b) (sort_key (\<lambda>(k, v). - int v) c)"
    by (rule sorted_wrt_mono_rel [rotated]) (auto simp: case_prod_beta)
  then show ?thesis unfolding most_common_def by (rule sorted_wrt_take)
qed

lemma distinct_most_common: "distinct (map fst c) \<Longrightarrow> distinct (map fst (most_common n c))"
proof -
  assume d: "distinct (map fst c)"
  have "mset (map fst (sort_key (\<lambda>(k, v). - int v) c)) = mset (map fst c)" by simp
  then have "distinct (map fst (sort_key (\<lambda>(k, v). - int v) c))"
    using d by (metis mset_eq_imp_distinct_iff)
  then show ?thesis unfolding most_common_def by (simp add: take_map [symmetric] distinct_take del: take_map)
qed


lemma detect_series_subset: "set (detect_series titles) \<subseteq> set (series_counter titles)"
  using set_most_common [of 20 "series_counter titles"] by (auto simp: detect_series_def)

lemma count_of_absent: "k \<notin> fst ` set c \<Longrightarrow> count_of c k = 0"
  by (induction c) auto

lemma example_romans:
  "contains ''Romans: Part 1'' '':''" "colon_name ''Romans: Part 1'' = ''Romans''"
  by code_simp+

lemma example_hope:
  "\<not> contains ''Hope 2'' '':''" "\<not> has_part ''Hope 2''"
  "trailing_number_group ''Hope 2'' = Some ''Hope''" "strip ''Hope'' = ''Hope''"
  by code_simp+

text \<open>
  Claim C5. The result of \<open>detect_series\<close> has at most 20 names, each once, each with
  its counter, which is 3 or more, in descending order of the counters, and a name
  whose counter is 2 is not in it. The title \<open>Romans: Part 1\<close> has a colon and adds one
  to the counter of \<open>Romans\<close>; the title \<open>Hope 2\<close> has no colon and no Part delimiter
  and adds one to the counter of \<open>Hope\<close>, the group of the trailing number pattern.
\<close>

theorem C5_series_result:
  "length (detect_series titles) \<le> 20 \<and>
   (\<forall>(k, v) \<in> set (detect_series titles). 3 \<le> v \<and> count_of (series_counter titles) k = v) \<and>
   sorted_wrt (\<lambda>a b. snd a \<ge> snd b) (detect_series titles) \<and>
   distinct (map fst (detect_series titles)) \<and>
   (\<forall>k. count_of (series_counter titles) k = 2 \<longrightarrow> k \<notin> fst ` set (detect_series titles)) \<and>
   contains ''Romans: Part 1'' '':'' \<and> colon_name ''Romans: Part 1'' = ''Romans'' \<and>
   count_of (detect_title series ''Romans: Part 1'') ''Romans'' = count_of series ''Romans'' + 1 \<and>
   \<not> contains ''Hope 2'' '':'' \<and> \<not> has_part ''Hope 2'' \<and>
   trailing_number_group ''Hope 2'' = Some ''Hope'' \<and>
   count_of (detect_title series ''Hope 2'') ''Hope'' = count_of series ''Hope'' + 1"
proof -
  have len: "length (detect_series titles) \<le> 20"
  proof -
    have "length (detect_series titles) \<le> length (most_common 20 (series_counter titles))"
      unfolding detect_series_def by (rule length_filter_le)
    also have "\<dots> \<le> 20" by (simp add: most_common_def)
    finally show ?thesis .
  qed
  have d: "distinct (map fst (series_counter titles))" by (rule distinct_series_counter)
  have mem: "\<forall>(k, v) \<in> set (detect_series titles). 3 \<le> v \<and> count_of (series_counter titles) k = v"
  proof (clarify, rule conjI)
    fix k v assume kv: "(k, v) \<in> set (detect_series titles)"
    then show "3 \<le> v" by (simp add: detect_series_def)
    from kv have "(k, v) \<in> set (series_counter titles)" using detect_series_subset by blast
    then show "count_of (series_counter titles) k = v" by (rule count_of_member [OF d])
  qed
  have srt: "sorted_wrt (\<lambda>a b. snd a \<ge> snd b) (detect_series titles)"
    unfolding detect_series_def by (rule sorted_wrt_filter) (rule sorted_most_common)
  have dis: "distinct (map fst (detect_series titles))"
    unfolding detect_series_def
    by (rule distinct_map_filter) (rule distinct_most_common [OF d])
  have two: "\<forall>k. count_of (series_counter titles) k = 2 \<longrightarrow> k \<notin> fst ` set (detect_series titles)"
  proof (intro allI impI notI)
    fix k assume c: "count_of (series_counter titles) k = 2" and "k \<in> fst ` set (detect_series titles)"
    then obtain v where "(k, v) \<in> set (detect_series titles)" by auto
    with mem have "3 \<le> v" "count_of (series_counter titles) k = v" by auto
    with c show False by simp
  qed
  have g: "trailing_number_group ''Romans: Part 1'' = Some ''Romans: Part''" "strip ''Romans: Part'' = ''Romans: Part''"
    by code_simp+
  have ne: "''Romans: Part'' \<noteq> ''Romans''" by simp
  have r: "count_of (detect_title series ''Romans: Part 1'') ''Romans'' = count_of series ''Romans'' + 1"
    by (simp add: detect_title_def Let_def example_romans g count_of_incr del: One_nat_def)
  have h: "count_of (detect_title series ''Hope 2'') ''Hope'' = count_of series ''Hope'' + 1"
    by (simp add: detect_title_def Let_def example_hope count_of_incr)
  from len mem srt dis two example_romans example_hope(1,2,3) r h show ?thesis by (intro conjI)
qed

definition example_titles :: "string list" where
  "example_titles =
     [''Romans: Part 1'', ''Hope 2'', ''Romans: Part 2'', ''Faith - Part 1'', ''Hope 3'',
      ''Romans: Part 3'', ''Faith - Part 2'', ''Hope 10'', ''Romans: Part 4'']"

lemma detect_series_example: "detect_series example_titles = [(''Romans'', 4), (''Romans: Part'', 4), (''Hope'', 3)]"
  by code_simp

lemma series_counter_example: "count_of (series_counter example_titles) ''Faith'' = 2"
  by code_simp

text \<open>
  Claim C5 at nine titles: \<open>Romans\<close> and \<open>Romans: Part\<close> are counted 4 times and
  \<open>Hope\<close> 3 times, \<open>Faith\<close> is counted twice and is left out.
\<close>

theorem C5_series_result_witness:
  "detect_series example_titles = [(''Romans'', 4), (''Romans: Part'', 4), (''Hope'', 3)] \<and>
   length (detect_series example_titles) \<le> 20 \<and>
   count_of (series_counter example_titles) ''Hope'' = 3 \<and>
   count_of (series_counter example_titles) ''Faith'' = 2 \<and>
   ''Faith'' \<notin> fst ` set (detect_series example_titles)"
proof -
  note t = C5_series_result [of example_titles "[]"]
  have a: "length (detect_series example_titles) \<le> 20"
    by (rule t [THEN conjunct1])
  have b: "\<forall>(k, v) \<in> set (detect_series example_titles).
           3 \<le> v \<and> count_of (series_counter example_titles) k = v"
    by (rule t [THEN conjunct2, THEN conjunct1])
  have "(''Hope'', 3) \<in> set (detect_series example_titles)"
    by (simp add: detect_series_example)
  with b have "case (''Hope'', 3::nat) of (k, v) \<Rightarrow>
      3 \<le> v \<and> count_of (series_counter example_titles) k = v"
    by (rule bspec)
  then have h: "count_of (series_counter example_titles) ''Hope'' = 3" by simp
  have c: "\<forall>k. count_of (series_counter example_titles) k = 2 \<longrightarrow>
           k \<notin> fst ` set (detect_series example_titles)"
    by (rule t [THEN conjunct2, THEN conjunct2, THEN conjunct2, THEN conjunct2, THEN conjunct1])
  have f: "''Faith'' \<notin> fst ` set (detect_series example_titles)"
    by (rule c [rule_format, OF series_counter_example])
  from detect_series_example a h series_counter_example f show ?thesis by (intro conjI)
qed


text \<open>
  What one title adds to the counter of the name \<open>n\<close>: one for the colon pattern when
  the title has a colon, one for the Part pattern when the title has no colon, one for
  the trailing number pattern.
\<close>

definition title_votes :: "string \<Rightarrow> string \<Rightarrow> nat" where
  "title_votes t n =
     (if contains t '':'' \<and> colon_name t = n then 1 else 0) +
     (if \<not> contains t '':'' \<and> has_part t \<and> part_name t = n then 1 else 0) +
     (case trailing_number_group t of None \<Rightarrow> 0 | Some g \<Rightarrow> if strip g = n then 1 else 0)"

lemma count_of_detect_title:
  "count_of (detect_title series t) n = count_of series n + title_votes t n"
  by (simp add: detect_title_def title_votes_def Let_def count_of_incr split: option.split)

lemma count_of_fold_detect:
  "count_of (fold (\<lambda>t series. detect_title series t) ts c) n =
   count_of c n + sum_list (map (\<lambda>t. title_votes t n) ts)"
  by (induction ts arbitrary: c) (simp_all add: count_of_detect_title)

text \<open>
  Claim C1, amended. The colon pattern and the trailing number pattern are tried on
  every title, the one without regard to the other; the Part pattern is tried on the
  titles without a colon only, being the \<open>elif\<close> of the colon test. Every pattern that
  is tried and matches adds one to the counter of the name it takes from the title,
  and the counter of a name after the loop is the sum of what the titles add.
\<close>

theorem C1_heuristics:
  "count_of (detect_title series t) n = count_of series n + title_votes t n \<and>
   count_of (series_counter titles) n = sum_list (map (\<lambda>t. title_votes t n) titles) \<and>
   (contains t '':'' \<longrightarrow>
      title_votes t n =
        (if colon_name t = n then 1 else 0) +
        (case trailing_number_group t of None \<Rightarrow> 0 | Some g \<Rightarrow> if strip g = n then 1 else 0)) \<and>
   (\<not> contains t '':'' \<longrightarrow>
      title_votes t n =
        (if has_part t \<and> part_name t = n then 1 else 0) +
        (case trailing_number_group t of None \<Rightarrow> 0 | Some g \<Rightarrow> if strip g = n then 1 else 0))"
proof -
  have a: "count_of (detect_title series t) n = count_of series n + title_votes t n"
    by (rule count_of_detect_title)
  have b: "count_of (series_counter titles) n = sum_list (map (\<lambda>t. title_votes t n) titles)"
    by (simp add: series_counter_def count_of_fold_detect)
  have c: "contains t '':'' \<longrightarrow>
      title_votes t n =
        (if colon_name t = n then 1 else 0) +
        (case trailing_number_group t of None \<Rightarrow> 0 | Some g \<Rightarrow> if strip g = n then 1 else 0)"
    by (simp add: title_votes_def)
  have d: "\<not> contains t '':'' \<longrightarrow>
      title_votes t n =
        (if has_part t \<and> part_name t = n then 1 else 0) +
        (case trailing_number_group t of None \<Rightarrow> 0 | Some g \<Rightarrow> if strip g = n then 1 else 0)"
    by (simp add: title_votes_def)
  from a b c d show ?thesis by (intro conjI)
qed

lemma example_faith:
  "\<not> contains ''Faith - Part 2'' '':''" "has_part ''Faith - Part 2''"
  "part_name ''Faith - Part 2'' = ''Faith''"
  "trailing_number_group ''Faith - Part 2'' = Some ''Faith - Part''"
  "strip ''Faith - Part'' = ''Faith - Part''"
  by code_simp+

lemma example_john:
  "contains ''John: Light 3'' '':''" "colon_name ''John: Light 3'' = ''John''"
  "trailing_number_group ''John: Light 3'' = Some ''John: Light''"
  "strip ''John: Light'' = ''John: Light''"
  by code_simp+

text \<open>
  Claim C1 at a title without a colon, where the Part pattern and the trailing number
  pattern both count, and at a title with a colon and a trailing number.
\<close>

theorem C1_heuristics_witness:
  "\<not> contains ''Faith - Part 2'' '':'' \<and>
   title_votes ''Faith - Part 2'' ''Faith'' = 1 \<and>
   title_votes ''Faith - Part 2'' ''Faith - Part'' = 1 \<and>
   contains ''John: Light 3'' '':'' \<and>
   title_votes ''John: Light 3'' ''John'' = 1 \<and>
   title_votes ''John: Light 3'' ''John: Light'' = 1 \<and>
   count_of (series_counter [''Faith - Part 2'', ''John: Light 3'']) ''Faith'' = 1"
proof -
  note f = C1_heuristics [of "[]" "''Faith - Part 2''" _ "[''Faith - Part 2'', ''John: Light 3'']",
      THEN conjunct2]
  note j = C1_heuristics [of "[]" "''John: Light 3''" _ "[]",
      THEN conjunct2, THEN conjunct2, THEN conjunct1, rule_format, OF example_john(1)]
  note f2 = f [THEN conjunct2, THEN conjunct2, rule_format, OF example_faith(1)]
  have 1: "title_votes ''Faith - Part 2'' ''Faith'' = 1"
    by (simp add: f2 example_faith)
  have 2: "title_votes ''Faith - Part 2'' ''Faith - Part'' = 1"
    by (simp add: f2 example_faith)
  have 3: "title_votes ''John: Light 3'' ''John'' = 1"
    by (simp add: j example_john)
  have 4: "title_votes ''John: Light 3'' ''John: Light'' = 1"
    by (simp add: j example_john)
  have 5: "title_votes ''John: Light 3'' ''Faith'' = 0"
    by (simp add: j example_john)
  have 6: "count_of (series_counter [''Faith - Part 2'', ''John: Light 3'']) ''Faith'' = 1"
    by (simp add: f [THEN conjunct1] 1 5)
  from example_faith(1) 1 2 example_john(1) 3 4 6 show ?thesis by (intro conjI)
qed

text \<open>
  Claim C1 as stated fails for the title \<open>Romans: Grace - Part One\<close>: it has a colon
  and a Part delimiter, the Part pattern would take the name \<open>Romans: Grace\<close> from it,
  and only the counter of \<open>Romans\<close> is incremented.
\<close>

theorem C1_counterexample:
  "contains ''Romans: Grace - Part One'' '':'' \<and>
   has_part ''Romans: Grace - Part One'' \<and>
   colon_name ''Romans: Grace - Part One'' = ''Romans'' \<and>
   part_name ''Romans: Grace - Part One'' = ''Romans: Grace'' \<and>
   count_of (series_counter [''Romans: Grace - Part One'']) ''Romans'' = 1 \<and>
   count_of (series_counter [''Romans: Grace - Part One'']) ''Romans: Grace'' = 0"
  by code_simp

section \<open>The phrase counter (ComprehensiveAnalyzer.find_all_phrases)\<close>

text \<open>The list \<open>target_phrases\<close> of the function.\<close>

definition target_phrases :: "string list" where
  "target_phrases =
     [''courts of heaven'', ''court of heaven'', ''DNA healing'', ''wounded soul'',
      ''soul wound'', ''wounding spirit'', ''leviathan spirit'', ''jezebel spirit'',
      ''python spirit'', ''generational curse'', ''territorial spirits'',
      ''seven mountains'', ''apostolic center'', ''prophetic word'',
      ''name it claim it'', ''speak into existence'', ''seed faith'',
      ''hundredfold return'', ''breakthrough anointing'', ''supernatural favor'',
      ''kingdom of god'', ''kingdom now'', ''power encounter'', ''signs and wonders'',
      ''holy spirit'', ''baptism of the spirit'', ''spiritual gifts'',
      ''word of knowledge'',
      ''gospel of'', ''grace of god'', ''blood of christ'', ''atonement'',
      ''justification'', ''sanctification'', ''repentance'', ''faith alone'',
      ''scripture alone'', ''sola scriptura'']"

text \<open>
  \<open>' '.join([row[0] for row in self.cursor.fetchall() if row[0]])\<close>, on the cells of
  the text column: a cell that is \<open>NULL\<close> or empty is left out.
\<close>

definition all_text :: "string option list \<Rightarrow> string" where
  "all_text col = join '' '' (concat (map (\<lambda>x. case x of None \<Rightarrow> [] | Some t \<Rightarrow> if t = [] then [] else [t]) col))"

text \<open>
  \<open>d[k] = v\<close> on a dictionary kept as the list of its items in insertion order: a
  key that is present keeps its place.
\<close>

fun dict_set :: "(string \<times> nat) list \<Rightarrow> string \<Rightarrow> nat \<Rightarrow> (string \<times> nat) list" where
  "dict_set [] k v = [(k, v)]"
| "dict_set ((k', v') # d) k v = (if k' = k then (k', v) # d else (k', v') # dict_set d k v)"

text \<open>
  The function for any list of phrases: the loop over the phrases, which keeps the
  counts that reach \<open>min_occurrences\<close>, and
  \<open>dict(sorted(phrase_counts.items(), key=lambda x: x[1], reverse=True))\<close>, a sort that
  keeps items of equal count in their order.
\<close>

definition find_phrases :: "string list \<Rightarrow> int \<Rightarrow> string option list \<Rightarrow> (string \<times> nat) list" where
  "find_phrases phrases min_occurrences col =
     (let all_text_lower = lower (all_text col);
          phrase_counts =
            fold (\<lambda>phrase d.
                    (let count = str_count all_text_lower (lower phrase)
                     in if min_occurrences \<le> int count then dict_set d phrase count else d))
                 phrases []
      in sort_key (\<lambda>(k, v). - int v) phrase_counts)"

text \<open>The count of one phrase in a corpus: \<open>all_text_lower.count(phrase.lower())\<close>.\<close>

definition phrase_count :: "string option list \<Rightarrow> string \<Rightarrow> nat" where
  "phrase_count col phrase = str_count (lower (all_text col)) (lower phrase)"

text \<open>\<open>find_all_phrases(min_occurrences)\<close>, on the cells of the text column.\<close>

definition find_all_phrases :: "int \<Rightarrow> string option list \<Rightarrow> (string \<times> nat) list" where
  "find_all_phrases min_occurrences col = find_phrases target_phrases min_occurrences col"

subsection \<open>Properties of the phrase counter\<close>

lemma find_first_bound: "find_first sub s = Some i \<Longrightarrow> i + length sub \<le> length s"
proof (induction s arbitrary: i)
  case Nil
  then show ?case by (simp split: if_splits)
next
  case (Cons c s)
  show ?case
  proof (cases "prefix sub (c # s)")
    case True
    with Cons.prems have "i = 0" by simp
    moreover from True have "length sub \<le> length (c # s)" by (rule prefix_length_le)
    ultimately show ?thesis by simp
  next
    case False
    with Cons.prems obtain j where j: "find_first sub s = Some j" "i = Suc j" by auto
    from Cons.IH [OF j(1)] j(2) show ?thesis by simp
  qed
qed


lemma prefix_append_short:
  "prefix sub (s @ x) \<Longrightarrow> length sub \<le> length s \<Longrightarrow> prefix sub s"
  by (metis prefix_append prefix_length_le prefix_order.antisym prefix_order.order_refl
      append_eq_append_conv_if prefix_def take_is_prefix append_take_drop_id le_refl)

lemma find_first_append:
  "find_first sub s = Some i \<Longrightarrow> find_first sub (s @ x) = Some i"
proof (induction s arbitrary: i)
  case Nil
  then have "sub = []" "i = 0" by (simp_all split: if_splits)
  then show ?case by (cases x) simp_all
next
  case (Cons c s)
  show ?case
  proof (cases "prefix sub (c # s)")
    case True
    then have "prefix sub ((c # s) @ x)" by (rule prefix_prefix)
    with True Cons.prems show ?thesis by simp
  next
    case False
    with Cons.prems obtain j where j: "find_first sub s = Some j" "i = Suc j" by auto
    have "length sub \<le> length (c # s)" using find_first_bound [OF j(1)] by simp
    with False have "\<not> prefix sub ((c # s) @ x)" using prefix_append_short by blast
    with Cons.IH [OF j(1)] j(2) show ?thesis by simp
  qed
qed

lemma str_count_append_mono: "str_count s sub \<le> str_count (s @ x) sub"
proof (induction s sub rule: str_count.induct)
  case (1 s sub)
  show ?case
  proof (cases "sub = []")
    case True
    then show ?thesis by (simp add: str_count.simps)
  next
    case ne: False
    show ?thesis
    proof (cases "find_first sub s")
      case None
      with ne show ?thesis by (simp add: str_count.simps [of s])
    next
      case (Some i)
      have b: "i + length sub \<le> length s" by (rule find_first_bound [OF Some])
      have f: "find_first sub (s @ x) = Some i" by (rule find_first_append [OF Some])
      have "str_count (drop (i + length sub) s) sub \<le> str_count (drop (i + length sub) s @ x) sub"
        by (rule 1 [OF ne Some])
      moreover have "drop (i + length sub) (s @ x) = drop (i + length sub) s @ x" using b by simp
      moreover have "str_count s sub = 1 + str_count (drop (i + length sub) s) sub"
        using ne Some by (simp add: str_count.simps [of s])
      moreover have "str_count (s @ x) sub = 1 + str_count (drop (i + length sub) (s @ x)) sub"
        using ne f by (simp add: str_count.simps [of "s @ x"])
      ultimately show ?thesis by simp
    qed
  qed
qed

lemma join_snoc: "join sep (xs @ [t]) = (if xs = [] then t else join sep xs @ sep @ t)"
  by (induction sep xs rule: join.induct) auto

lemma all_text_snoc: "\<exists>x. all_text (col @ [r]) = all_text col @ x"
proof -
  let ?f = "\<lambda>x. case x of None \<Rightarrow> [] | Some t \<Rightarrow> if t = [] then [] else [t]"
  let ?ts = "concat (map ?f col)"
  have "?f r = [] \<or> (\<exists>t. ?f r = [t])"
    by (cases r) simp_all
  then consider "?f r = []" | t where "?f r = [t]" by blast
  then show ?thesis
  proof cases
    case 1
    then have "all_text (col @ [r]) = all_text col @ []" by (simp add: all_text_def)
    then show ?thesis by blast
  next
    case 2
    then have "all_text (col @ [r]) = join '' '' (?ts @ [t])" by (simp add: all_text_def)
    also have "\<dots> = (if ?ts = [] then t else join '' '' ?ts @ '' '' @ t)" by (rule join_snoc)
    finally have e: "all_text (col @ [r]) = (if ?ts = [] then t else join '' '' ?ts @ '' '' @ t)" .
    show ?thesis
    proof (cases "?ts = []")
      case True
      then have "all_text col = join '' '' []" unfolding all_text_def by (rule arg_cong)
      then have "all_text col = []" by simp
      with e True have "all_text (col @ [r]) = all_text col @ t" by simp
      then show ?thesis by blast
    next
      case False
      with e have "all_text (col @ [r]) = all_text col @ ('' '' @ t)" by (simp add: all_text_def)
      then show ?thesis by blast
    qed
  qed
qed

lemma phrase_count_mono: "phrase_count col phrase \<le> phrase_count (col @ [r]) phrase"
proof -
  obtain x where "all_text (col @ [r]) = all_text col @ x" using all_text_snoc by blast
  then have "lower (all_text (col @ [r])) = lower (all_text col) @ lower x" by (simp add: lower_def)
  then show ?thesis by (simp add: phrase_count_def str_count_append_mono)
qed


lemma map_of_dict_set: "map_of (dict_set d k v) = (map_of d)(k \<mapsto> v)"
  by (induction d k v rule: dict_set.induct) (auto simp: fun_eq_iff)

lemma keys_dict_set: "set (map fst (dict_set d k v)) = insert k (set (map fst d))"
  by (induction d k v rule: dict_set.induct) auto

lemma distinct_dict_set: "distinct (map fst d) \<Longrightarrow> distinct (map fst (dict_set d k v))"
proof (induction d k v rule: dict_set.induct)
  case (1 k v)
  then show ?case by simp
next
  case (2 k' v' d k v)
  show ?case
  proof (cases "k' = k")
    case True
    with 2 show ?thesis by simp
  next
    case False
    have "k' \<notin> set (map fst (dict_set d k v))" using 2(2) False by (simp only: keys_dict_set) auto
    moreover have "distinct (map fst (dict_set d k v))" using 2 False by simp
    ultimately show ?thesis using False by simp
  qed
qed

lemma map_of_fold_counts:
  "map_of (fold (\<lambda>phrase d. if m \<le> int (cnt phrase) then dict_set d phrase (cnt phrase) else d) ps d) p =
   (if p \<in> set ps \<and> m \<le> int (cnt p) then Some (cnt p) else map_of d p)"
proof (induction ps arbitrary: d)
  case Nil
  then show ?case by simp
next
  case (Cons a ps)
  show ?case by (simp add: Cons.IH map_of_dict_set)
qed

lemma distinct_fold_counts:
  "distinct (map fst d) \<Longrightarrow>
   distinct (map fst (fold (\<lambda>phrase d. if m \<le> int (cnt phrase) then dict_set d phrase (cnt phrase) else d) ps d))"
  by (induction ps arbitrary: d) (simp_all add: distinct_dict_set)

lemma map_of_sort_key:
  assumes "distinct (map fst xs)"
  shows "map_of (sort_key f xs) = map_of xs"
proof -
  have "mset (map fst (sort_key f xs)) = mset (map fst xs)" by simp
  then have "distinct (map fst (sort_key f xs))" using assms by (metis mset_eq_imp_distinct_iff)
  moreover have "set (sort_key f xs) = set xs" by simp
  ultimately show ?thesis using assms by (simp add: map_of_inject_set)
qed

lemma map_of_find_phrases:
  "map_of (find_phrases phrases m col) p =
   (if p \<in> set phrases \<and> m \<le> int (phrase_count col p) then Some (phrase_count col p) else None)"
proof -
  let ?cnt = "\<lambda>phrase. str_count (lower (all_text col)) (lower phrase)"
  let ?d = "fold (\<lambda>phrase d. if m \<le> int (?cnt phrase) then dict_set d phrase (?cnt phrase) else d) phrases []"
  have "distinct (map fst ?d)" by (rule distinct_fold_counts) simp
  then have "map_of (sort_key (\<lambda>(k, v). - int v) ?d) = map_of ?d" by (rule map_of_sort_key)
  then have "map_of (find_phrases phrases m col) p = map_of ?d p"
    by (simp add: find_phrases_def Let_def)
  also have "\<dots> = (if p \<in> set phrases \<and> m \<le> int (?cnt p) then Some (?cnt p) else map_of [] p)"
    by (rule map_of_fold_counts)
  finally show ?thesis by (simp add: phrase_count_def)
qed

text \<open>
  Claim C9. For every list of phrases and every threshold, a record appended to the
  corpus does not lower the count of any phrase; the result holds a phrase exactly
  when the phrase is in the list and its count reaches the threshold, with that count;
  so a phrase in the result before the record is appended is in the result after, with
  a count that is not lower. The same holds of \<open>find_all_phrases\<close> and its list.
\<close>

theorem C9_counts_monotone:
  "phrase_count col p \<le> phrase_count (col @ [r]) p \<and>
   map_of (find_phrases phrases m col) p =
     (if p \<in> set phrases \<and> m \<le> int (phrase_count col p) then Some (phrase_count col p) else None) \<and>
   (map_of (find_phrases phrases m col) p = Some c \<longrightarrow>
      (\<exists>c'. map_of (find_phrases phrases m (col @ [r])) p = Some c' \<and> c \<le> c')) \<and>
   (map_of (find_all_phrases m col) p = Some c \<longrightarrow>
      (\<exists>c'. map_of (find_all_phrases m (col @ [r])) p = Some c' \<and> c \<le> c'))"
proof -
  have mono: "phrase_count col p \<le> phrase_count (col @ [r]) p" by (rule phrase_count_mono)
  have val: "map_of (find_phrases phrases m col) p =
     (if p \<in> set phrases \<and> m \<le> int (phrase_count col p) then Some (phrase_count col p) else None)"
    by (rule map_of_find_phrases)
  have keep: "map_of (find_phrases ps m col) p = Some c \<longrightarrow>
      (\<exists>c'. map_of (find_phrases ps m (col @ [r])) p = Some c' \<and> c \<le> c')" for ps
  proof
    assume "map_of (find_phrases ps m col) p = Some c"
    then have h: "p \<in> set ps" "m \<le> int (phrase_count col p)" "c = phrase_count col p"
      by (auto simp: map_of_find_phrases split: if_splits)
    from h(2) mono have "m \<le> int (phrase_count (col @ [r]) p)" by simp
    with h(1) have "map_of (find_phrases ps m (col @ [r])) p = Some (phrase_count (col @ [r]) p)"
      by (simp add: map_of_find_phrases)
    with h(3) mono show "\<exists>c'. map_of (find_phrases ps m (col @ [r])) p = Some c' \<and> c \<le> c'"
      by simp
  qed
  have all: "map_of (find_all_phrases m col) p = Some c \<longrightarrow>
      (\<exists>c'. map_of (find_all_phrases m (col @ [r])) p = Some c' \<and> c \<le> c')"
    unfolding find_all_phrases_def by (rule keep)
  from mono val keep [of phrases] all show ?thesis by (intro conjI)
qed

definition example_corpus :: "string option list" where
  "example_corpus = [Some ''The Holy Spirit came'', None, Some []]"

lemma find_all_phrases_example:
  "find_all_phrases 1 example_corpus = [(''holy spirit'', 1)]"
  "find_all_phrases 1 (example_corpus @ [Some ''holy spirit, HOLY SPIRIT and repentance'']) =
     [(''holy spirit'', 3), (''repentance'', 1)]"
  by code_simp+

text \<open>
  Claim C9 at a corpus of one text, a \<open>NULL\<close> and an empty text, with the threshold
  1, and a record appended in which \<open>holy spirit\<close> occurs twice.
\<close>

theorem C9_counts_monotone_witness:
  "map_of (find_all_phrases 1 example_corpus) ''holy spirit'' = Some 1 \<and>
   (\<exists>c'. map_of (find_all_phrases 1
             (example_corpus @ [Some ''holy spirit, HOLY SPIRIT and repentance''])) ''holy spirit'' = Some c' \<and>
         1 \<le> c') \<and>
   map_of (find_all_phrases 1
      (example_corpus @ [Some ''holy spirit, HOLY SPIRIT and repentance''])) ''holy spirit'' = Some 3"
proof -
  have a: "map_of (find_all_phrases 1 example_corpus) ''holy spirit'' = Some 1"
    by (simp add: find_all_phrases_example)
  have b: "map_of (find_all_phrases 1
      (example_corpus @ [Some ''holy spirit, HOLY SPIRIT and repentance''])) ''holy spirit'' = Some 3"
    by (simp add: find_all_phrases_example)
  note t = C9_counts_monotone [of example_corpus "''holy spirit''"
      "Some ''holy spirit, HOLY SPIRIT and repentance''" "[]" 1 1]
  from t [THEN conjunct2, THEN conjunct2, THEN conjunct2, rule_format, OF a] a b
  show ?thesis by (intro conjI)
qed

section \<open>The context scanner (find_all_contexts)\<close>








subsection \<open>The scan as a total function\<close>





lemma length_lower [simp]: "length (lower s) = length s"
  by (simp add: lower_def)

lemma lower_Nil_iff [simp]: "lower s = [] \<longleftrightarrow> s = []"
  by (simp add: lower_def)













section \<open>The devotional parser (devotional_generator.py, generate_devotionals)\<close>















subsection \<open>Well-formed units\<close>




lemma find_first_le:
  "k \<le> length s \<Longrightarrow> prefix sub (drop k s) \<Longrightarrow> \<exists>i \<le> k. find_first sub s = Some i"
proof (induction s arbitrary: k)
  case Nil
  then show ?case by simp
next
  case (Cons c s)
  show ?case
  proof (cases "prefix sub (c # s)")
    case True
    then show ?thesis by simp
  next
    case False
    with Cons.prems obtain j where j: "k = Suc j" by (cases k) auto
    with Cons.prems have "j \<le> length s" "prefix sub (drop j s)" by simp_all
    from Cons.IH [OF this] obtain i where "i \<le> j" "find_first sub s = Some i" by blast
    with False j show ?thesis by simp
  qed
qed

lemma split_once_first:
  assumes "s = a @ sep @ r"
  shows "\<exists>a' x. split_once sep s = Some (a', x @ r)"
proof -
  have "length a \<le> length s" "prefix sub (drop (length a) s)" if "sub = sep" for sub
    using assms that by simp_all
  then obtain i where i: "i \<le> length a" "find_first sep s = Some i"
    using find_first_le [of "length a" s sep] by blast
  have "drop (i + length sep) s = drop (i + length sep) (a @ sep) @ r"
    using i(1) assms by simp
  then show ?thesis using i(2) by (simp add: split_once_def)
qed

lemma split_once_None: "split_once sep s = None \<Longrightarrow> s \<noteq> a @ sep @ r"
  using split_once_first [of s a sep r] by auto
























end
